theory Spec2Isabelle
  imports Main "HOL-Library.Word"
begin

section \<open>Iterator demo: \<^verbatim>\<open>src/iterator/iterator.cpp\<close>\<close>

text \<open>
  The C++ type \<^verbatim>\<open>int\<close> is a 32-bit two's complement integer, modelled as \<open>32 word\<close>
  and read through \<open>sint\<close>.  \<^verbatim>\<open>std::vector<T>\<close> is a list; its \<^verbatim>\<open>size()\<close> is the
  (unsigned, 64-bit) length of the list.  Both exceptions of the file are
  \<^verbatim>\<open>std::out_of_range\<close>, carrying the message given to the constructor.
\<close>

type_synonym cint = "32 word"

datatype exn = out_of_range string

record 'a CustomCollection =
  items :: "'a list"

text \<open>The constructor only prints a line; the vector starts empty.\<close>

definition CustomCollection_new :: "'a CustomCollection" where
  "CustomCollection_new = \<lparr>items = []\<rparr>"

text \<open>\<^verbatim>\<open>void add(const T &item) { items.push_back(item); }\<close>\<close>

definition add :: "'a CustomCollection \<Rightarrow> 'a \<Rightarrow> 'a CustomCollection" where
  "add c item = c\<lparr>items := items c @ [item]\<rparr>"

text \<open>
  \<^verbatim>\<open>int size() const { return items.size(); }\<close>: the \<^verbatim>\<open>size_t\<close> count is narrowed to
  \<^verbatim>\<open>int\<close>, that is, reduced modulo \<open>2 ^ 32\<close> and read as a signed value (the rule of
  C++20, and what compilers did before it).
\<close>

definition size_c :: "'a CustomCollection \<Rightarrow> cint" where
  "size_c c = word_of_nat (length (items c))"

text \<open>
  \<^verbatim>\<open>if (index >= 0 && index < items.size()) return items[index]; throw ...\<close>.
  The second comparison is made at type \<^verbatim>\<open>size_t\<close>; it is evaluated only for a
  non-negative \<^verbatim>\<open>index\<close>, whose conversion keeps its value.
\<close>

definition get :: "'a CustomCollection \<Rightarrow> cint \<Rightarrow> exn + 'a" where
  "get c index =
     (if 0 \<le> sint index \<and> nat (sint index) < length (items c)
      then Inr (items c ! nat (sint index))
      else Inl (out_of_range ''Index out of range''))"

text \<open>
  The cursor holds a reference to its collection and the field \<^verbatim>\<open>currentIndex\<close>.
  The reference never changes, so the model passes the collection to each
  operation and keeps the index in the cursor's record.
\<close>

record ForwardIterator =
  currentIndex :: cint

definition createIterator :: "'a CustomCollection \<Rightarrow> ForwardIterator" where
  "createIterator c = \<lparr>currentIndex = 0\<rparr>"

definition hasNext :: "'a CustomCollection \<Rightarrow> ForwardIterator \<Rightarrow> bool" where
  "hasNext c it \<longleftrightarrow> currentIndex it <s size_c c"

text \<open>
  \<^verbatim>\<open>if (!hasNext()) throw ...; return collection.get(currentIndex++);\<close>
  The increment is done before \<^verbatim>\<open>get\<close> runs, so it is kept also when \<^verbatim>\<open>get\<close> throws.
\<close>

definition next_it :: "'a CustomCollection \<Rightarrow> ForwardIterator \<Rightarrow> (exn + 'a) \<times> ForwardIterator" where
  "next_it c it =
     (if \<not> hasNext c it then (Inl (out_of_range ''No more elements''), it)
      else (get c (currentIndex it), it\<lparr>currentIndex := currentIndex it + 1\<rparr>))"

text \<open>A run of \<^verbatim>\<open>add\<close> calls, as at the start of \<^verbatim>\<open>main\<close>.\<close>

definition add_all :: "'a CustomCollection \<Rightarrow> 'a list \<Rightarrow> 'a CustomCollection" where
  "add_all c xs = foldl add c xs"

text \<open>No overflow: an index below another \<^verbatim>\<open>int\<close> can be incremented.\<close>

lemma sint_succ: "sint (i::cint) < sint (n::cint) \<Longrightarrow> sint (i + 1) = sint i + 1"
proof -
  assume a: "sint i < sint n"
  have "sint n < 2 ^ 31" using sint_lt [of n] by simp
  moreover have "- (2 ^ 31) \<le> sint i" using sint_ge [of i] by simp
  ultimately have "signed_take_bit 31 (sint i + 1) = sint i + 1"
    using a by (intro signed_take_bit_int_eq_self) auto
  then show ?thesis by (simp add: sint_word_ariths)
qed

text \<open>
  The loop of \<^verbatim>\<open>main\<close>: \<^verbatim>\<open>while (iterator->hasNext()) std::cout << iterator->next();\<close>
  The elements retrieved are collected in \<open>acc\<close>; an exception leaves the loop.
  The loop ends: each round moves the index one closer to \<^verbatim>\<open>size()\<close>.
\<close>

function traverse ::
  "'a CustomCollection \<Rightarrow> ForwardIterator \<Rightarrow> 'a list \<Rightarrow> (exn + 'a list) \<times> ForwardIterator" where
  "traverse c it acc =
     (if hasNext c it then
        (case next_it c it of
           (Inl e, it') \<Rightarrow> (Inl e, it')
         | (Inr x, it') \<Rightarrow> traverse c it' (acc @ [x]))
      else (Inr acc, it))"
  by pat_completeness auto
termination
proof (relation "measure (\<lambda>(c, it, acc). nat (sint (size_c c) - sint (currentIndex it)))")
  show "wf (measure (\<lambda>(c, it, acc). nat (sint (size_c c) - sint (currentIndex it))))"
    by simp
next
  fix c :: "'a CustomCollection" and it :: ForwardIterator and acc :: "'a list"
    and r :: "exn + 'a" and it' :: ForwardIterator and x :: 'a
  assume h: "hasNext c it" and n: "(r, it') = next_it c it" "r = Inr x"
  from h have lt: "sint (currentIndex it) < sint (size_c c)"
    by (simp add: hasNext_def word_sless_alt)
  from h n have "it' = it\<lparr>currentIndex := currentIndex it + 1\<rparr>"
    by (simp add: next_it_def)
  with lt sint_succ [OF lt]
  show "((c, it', acc @ [x]), (c, it, acc))
          \<in> measure (\<lambda>(c, it, acc). nat (sint (size_c c) - sint (currentIndex it)))"
    by simp
qed

declare traverse.simps [simp del]

lemma items_add_all: "items (add_all c xs) = items c @ xs"
  unfolding add_all_def by (induction xs arbitrary: c) (simp_all add: add_def)

text \<open>Every collection is the result of appending its elements to a new one.\<close>

lemma collection_is_add_all: "c = add_all CustomCollection_new (items c)"
  by (simp add: items_add_all CustomCollection_new_def)

subsection \<open>The narrowing in \<^verbatim>\<open>size()\<close>\<close>

lemma sint_of_nat_small: "n < 2 ^ 31 \<Longrightarrow> sint (word_of_nat n :: cint) = int n"
  by (simp add: signed_of_nat signed_take_bit_int_eq_self)

lemma sint_of_nat_le:
  assumes "0 \<le> sint (word_of_nat n :: cint)"
  shows "sint (word_of_nat n :: cint) \<le> int n"
proof -
  have s: "sint (word_of_nat n :: cint) = signed_take_bit 31 (int n)"
    by (simp add: signed_of_nat)
  with assms have "\<not> bit (int n) 31"
    by simp
  then have "signed_take_bit 31 (int n) = take_bit 31 (int n)"
    by (rule signed_take_bit_eq_if_positive)
  moreover have "take_bit 31 (int n) \<le> int n"
    by (simp add: take_bit_int_less_eq_self_iff)
  ultimately show ?thesis using s by simp
qed

text \<open>Up to \<open>INT_MAX\<close> elements, \<^verbatim>\<open>size()\<close> is the number of elements.\<close>

lemma size_c_count: "length (items c) < 2 ^ 31 \<Longrightarrow> sint (size_c c) = int (length (items c))"
  by (simp add: size_c_def sint_of_nat_small)

lemma hasNext_small:
  "length (items c) < 2 ^ 31 \<Longrightarrow>
   hasNext c it \<longleftrightarrow> sint (currentIndex it) < int (length (items c))"
  by (simp add: hasNext_def word_sless_alt size_c_count)

text \<open>
  Whatever \<^verbatim>\<open>size()\<close> returns, a non-negative index below it is an index of the vector:
  a positive narrowed value is the count modulo \<open>2 ^ 32\<close>, which is at most the count.
\<close>

lemma hasNext_in_range:
  assumes "hasNext c it" and "0 \<le> sint (currentIndex it)"
  shows "nat (sint (currentIndex it)) < length (items c)"
proof -
  from assms have lt: "sint (currentIndex it) < sint (size_c c)"
    by (simp add: hasNext_def word_sless_alt)
  with assms(2) have "0 \<le> sint (word_of_nat (length (items c)) :: cint)"
    by (simp add: size_c_def)
  from sint_of_nat_le [OF this] lt show ?thesis
    using assms(2) by (simp add: size_c_def)
qed

lemma next_it_hasNext:
  assumes "hasNext c it" and "0 \<le> sint (currentIndex it)"
  shows "next_it c it =
    (Inr (items c ! nat (sint (currentIndex it))), it\<lparr>currentIndex := currentIndex it + 1\<rparr>)"
  using assms hasNext_in_range [OF assms] by (simp add: next_it_def get_def)

lemma hasNext_sint_succ:
  "hasNext c it \<Longrightarrow> sint (currentIndex it + 1) = sint (currentIndex it) + 1"
  by (rule sint_succ [of _ "size_c c"]) (simp add: hasNext_def word_sless_alt)

subsection \<open>The traversal loop\<close>

lemma traverse_drop:
  "0 \<le> sint (currentIndex it) \<Longrightarrow> length (items c) < 2 ^ 31 \<Longrightarrow>
   fst (traverse c it acc) = Inr (acc @ drop (nat (sint (currentIndex it))) (items c))
   \<and> \<not> hasNext c (snd (traverse c it acc))"
proof (induction c it acc rule: traverse.induct)
  case (1 c it acc)
  show ?case
  proof (cases "hasNext c it")
    case False
    with 1(3) have "int (length (items c)) \<le> sint (currentIndex it)"
      by (simp add: hasNext_small)
    with False show ?thesis by (simp add: traverse.simps [of c it])
  next
    case True
    let ?i = "nat (sint (currentIndex it))"
    let ?it' = "it\<lparr>currentIndex := currentIndex it + 1\<rparr>"
    have nx: "next_it c it = (Inr (items c ! ?i), ?it')"
      using True 1(2) by (rule next_it_hasNext)
    have s: "sint (currentIndex ?it') = sint (currentIndex it) + 1"
      using hasNext_sint_succ [OF True] by simp
    have lt: "?i < length (items c)" using True 1(2) by (rule hasNext_in_range)
    have ih: "fst (traverse c ?it' (acc @ [items c ! ?i]))
        = Inr ((acc @ [items c ! ?i]) @ drop (nat (sint (currentIndex ?it'))) (items c))
      \<and> \<not> hasNext c (snd (traverse c ?it' (acc @ [items c ! ?i])))"
      using 1(1) [OF True nx [symmetric] refl] s 1(2,3) by simp
    have "nat (sint (currentIndex ?it')) = Suc ?i" using s 1(2) by simp
    with ih lt True nx show ?thesis
      by (simp add: traverse.simps [of c it] Cons_nth_drop_Suc)
  qed
qed

text \<open>
  C1, as stated: every run of \<open>N\<close> appends to a fresh collection followed by a full
  traversal with a new cursor yields the \<open>N\<close> elements.  It fails for
  \<open>N = 2147483648\<close>: \<^verbatim>\<open>size()\<close> then returns \<open>INT_MIN\<close>, the first \<^verbatim>\<open>hasNext()\<close> is false and
  the traversal yields no element at all.
\<close>

theorem traversal_of_2147483648_appends_yields_nothing:
  "traverse (add_all CustomCollection_new (replicate 2147483648 (7::cint)))
     (createIterator (add_all CustomCollection_new (replicate 2147483648 (7::cint)))) []
   = (Inr [], \<lparr>currentIndex = 0\<rparr>)
   \<and> length (replicate 2147483648 (7::cint)) = 2147483648"
  by (simp add: traverse.simps hasNext_def size_c_def items_add_all CustomCollection_new_def
      createIterator_def word_sless_alt)

text \<open>
  C1, amended: for every list \<open>xs\<close> of at most \<open>2 ^ 31 - 1\<close> elements, appending the
  elements of \<open>xs\<close> in order to a fresh collection and traversing it with a newly created
  cursor (calling \<^verbatim>\<open>next()\<close> while \<^verbatim>\<open>hasNext()\<close> is true) returns normally, yields exactly
  the elements of \<open>xs\<close> in the order of the appends, and leaves a cursor whose
  \<^verbatim>\<open>hasNext()\<close> is false.
\<close>

theorem full_traversal_yields_appends:
  assumes "length xs < 2 ^ 31"
  shows "fst (traverse (add_all CustomCollection_new xs)
                 (createIterator (add_all CustomCollection_new xs)) []) = Inr xs
       \<and> \<not> hasNext (add_all CustomCollection_new xs)
             (snd (traverse (add_all CustomCollection_new xs)
                     (createIterator (add_all CustomCollection_new xs)) []))"
proof -
  let ?c = "add_all CustomCollection_new xs"
  have i: "items ?c = xs" by (simp add: items_add_all CustomCollection_new_def)
  have "0 \<le> sint (currentIndex (createIterator ?c))" by (simp add: createIterator_def)
  from traverse_drop [OF this, of ?c "[]"] assms i show ?thesis
    by (simp add: createIterator_def)
qed

theorem full_traversal_yields_appends_witness:
  "length [1, 2, 3, 4, 5 :: cint] < 2 ^ 31
   \<and> fst (traverse (add_all CustomCollection_new [1, 2, 3, 4, 5 :: cint])
            (createIterator (add_all CustomCollection_new [1, 2, 3, 4, 5 :: cint])) [])
       = Inr [1, 2, 3, 4, 5]
   \<and> \<not> hasNext (add_all CustomCollection_new [1, 2, 3, 4, 5 :: cint])
         (snd (traverse (add_all CustomCollection_new [1, 2, 3, 4, 5 :: cint])
                 (createIterator (add_all CustomCollection_new [1, 2, 3, 4, 5 :: cint])) []))"
  using full_traversal_yields_appends [of "[1, 2, 3, 4, 5 :: cint]"] by simp

text \<open>
  C2, as stated: \<^verbatim>\<open>get(index)\<close> throws whenever \<^verbatim>\<open>index >= size()\<close>.  It fails for a
  container of \<open>2147483648\<close> elements and the index \<open>0\<close>: \<^verbatim>\<open>size()\<close> returns \<open>INT_MIN\<close>,
  so \<open>0\<close> is not below it, but \<^verbatim>\<open>get\<close> compares with the exact \<^verbatim>\<open>items.size()\<close> and returns
  the first element.
\<close>

theorem get_succeeds_at_index_not_below_size:
  "get (add_all CustomCollection_new (replicate 2147483648 (7::cint))) 0 = Inr 7
   \<and> sint (size_c (add_all CustomCollection_new (replicate 2147483648 (7::cint))))
       \<le> sint (0::cint)
   \<and> sint (size_c (add_all CustomCollection_new (replicate 2147483648 (7::cint))))
       = - 2147483648"
  by (simp add: get_def size_c_def items_add_all CustomCollection_new_def)

text \<open>
  C2, amended: for every collection, written as the appends that built it, and every
  \<^verbatim>\<open>int\<close> index: \<^verbatim>\<open>get(index)\<close> throws \<^verbatim>\<open>std::out_of_range\<close> when the index is negative or
  not below the number of elements held (the \<^verbatim>\<open>items.size()\<close> that \<^verbatim>\<open>get\<close> compares with),
  and otherwise returns the element that was appended at that position; \<^verbatim>\<open>size()\<close>
  returns that number for every collection of at most \<open>2 ^ 31 - 1\<close> elements.
\<close>

theorem get_bounds_checked:
  "(sint index < 0 \<or> int (length xs) \<le> sint index \<longrightarrow>
      get (add_all CustomCollection_new xs) index = Inl (out_of_range ''Index out of range''))
   \<and> (0 \<le> sint index \<and> sint index < int (length xs) \<longrightarrow>
      get (add_all CustomCollection_new xs) index = Inr (xs ! nat (sint index)))
   \<and> (length xs < 2 ^ 31 \<longrightarrow> sint (size_c (add_all CustomCollection_new xs)) = int (length xs))"
  by (auto simp: get_def items_add_all CustomCollection_new_def size_c_count)

theorem get_bounds_checked_witness:
  "(sint (- 1 :: cint) < 0 \<or> int (length [10, 20, 30 :: cint]) \<le> sint (- 1 :: cint))
   \<and> get (add_all CustomCollection_new [10, 20, 30 :: cint]) (- 1)
       = Inl (out_of_range ''Index out of range'')
   \<and> (sint (3 :: cint) < 0 \<or> int (length [10, 20, 30 :: cint]) \<le> sint (3 :: cint))
   \<and> get (add_all CustomCollection_new [10, 20, 30 :: cint]) 3
       = Inl (out_of_range ''Index out of range'')
   \<and> 0 \<le> sint (2 :: cint) \<and> sint (2 :: cint) < int (length [10, 20, 30 :: cint])
   \<and> get (add_all CustomCollection_new [10, 20, 30 :: cint]) 2 = Inr 30
   \<and> length [10, 20, 30 :: cint] < 2 ^ 31
   \<and> sint (size_c (add_all CustomCollection_new [10, 20, 30 :: cint])) = 3"
  using get_bounds_checked [of "- 1" "[10, 20, 30 :: cint]"]
    get_bounds_checked [of 3 "[10, 20, 30 :: cint]"]
    get_bounds_checked [of 2 "[10, 20, 30 :: cint]"]
  by simp

text \<open>
  C3, as stated: \<^verbatim>\<open>hasNext()\<close> is true iff the position is below the number of elements
  of the container.  It fails for a container of \<open>2147483648\<close> elements and a new
  cursor: the position \<open>0\<close> is below the size, but \<^verbatim>\<open>hasNext()\<close> compares it with the
  narrowed \<^verbatim>\<open>size()\<close>, which is \<open>INT_MIN\<close>, and returns false.
\<close>

theorem hasNext_false_on_2147483648_elements:
  "\<not> hasNext (add_all CustomCollection_new (replicate 2147483648 (7::cint)))
        (createIterator (add_all CustomCollection_new (replicate 2147483648 (7::cint))))
   \<and> sint (currentIndex
        (createIterator (add_all CustomCollection_new (replicate 2147483648 (7::cint)))))
      < int (length (items (add_all CustomCollection_new (replicate 2147483648 (7::cint)))))"
  by (simp add: hasNext_def size_c_def items_add_all CustomCollection_new_def
      createIterator_def word_sless_alt)

text \<open>
  C3, amended: for every cursor (its position is never negative) over a container:
  \<^verbatim>\<open>hasNext()\<close> is true iff the position is below the \<^verbatim>\<open>int\<close> that \<^verbatim>\<open>size()\<close> returns, which
  is the number of elements whenever the container holds at most \<open>2 ^ 31 - 1\<close> of them;
  \<^verbatim>\<open>next()\<close> throws \<^verbatim>\<open>std::out_of_range\<close> and leaves the cursor as it is whenever
  \<^verbatim>\<open>hasNext()\<close> is false; when \<^verbatim>\<open>hasNext()\<close> is true, \<^verbatim>\<open>next()\<close> returns the element at the
  current position and advances the position by exactly one.
\<close>

theorem cursor_contract:
  "(hasNext c it \<longleftrightarrow> sint (currentIndex it) < sint (size_c c))
   \<and> (length (items c) < 2 ^ 31 \<longrightarrow>
        (hasNext c it \<longleftrightarrow> sint (currentIndex it) < int (length (items c))))
   \<and> (\<not> hasNext c it \<longrightarrow> next_it c it = (Inl (out_of_range ''No more elements''), it))
   \<and> (hasNext c it \<and> 0 \<le> sint (currentIndex it) \<longrightarrow>
        fst (next_it c it) = Inr (items c ! nat (sint (currentIndex it)))
        \<and> nat (sint (currentIndex it)) < length (items c)
        \<and> sint (currentIndex (snd (next_it c it))) = sint (currentIndex it) + 1)"
proof (intro conjI impI)
  show "hasNext c it \<longleftrightarrow> sint (currentIndex it) < sint (size_c c)"
    by (simp add: hasNext_def word_sless_alt)
next
  assume "length (items c) < 2 ^ 31"
  then show "hasNext c it \<longleftrightarrow> sint (currentIndex it) < int (length (items c))"
    by (rule hasNext_small)
next
  assume "\<not> hasNext c it"
  then show "next_it c it = (Inl (out_of_range ''No more elements''), it)"
    by (simp add: next_it_def)
next
  assume h: "hasNext c it \<and> 0 \<le> sint (currentIndex it)"
  then have nx: "next_it c it =
      (Inr (items c ! nat (sint (currentIndex it))), it\<lparr>currentIndex := currentIndex it + 1\<rparr>)"
    by (simp add: next_it_hasNext)
  from nx show "fst (next_it c it) = Inr (items c ! nat (sint (currentIndex it)))"
    by simp
  from h show "nat (sint (currentIndex it)) < length (items c)"
    by (simp add: hasNext_in_range)
  from h have "hasNext c it" by simp
  from nx hasNext_sint_succ [OF this]
  show "sint (currentIndex (snd (next_it c it))) = sint (currentIndex it) + 1"
    by simp
qed

theorem cursor_contract_witness:
  "length (items (add_all CustomCollection_new [10, 20, 30 :: cint])) < 2 ^ 31
   \<and> hasNext (add_all CustomCollection_new [10, 20, 30 :: cint]) \<lparr>currentIndex = 1\<rparr>
   \<and> sint (currentIndex \<lparr>currentIndex = 1\<rparr>)
       < int (length (items (add_all CustomCollection_new [10, 20, 30 :: cint])))
   \<and> 0 \<le> sint (currentIndex \<lparr>currentIndex = 1\<rparr>)
   \<and> fst (next_it (add_all CustomCollection_new [10, 20, 30 :: cint]) \<lparr>currentIndex = 1\<rparr>)
       = Inr 20
   \<and> sint (currentIndex
        (snd (next_it (add_all CustomCollection_new [10, 20, 30 :: cint]) \<lparr>currentIndex = 1\<rparr>)))
       = 2
   \<and> \<not> hasNext (add_all CustomCollection_new [10, 20, 30 :: cint]) \<lparr>currentIndex = 3\<rparr>
   \<and> next_it (add_all CustomCollection_new [10, 20, 30 :: cint]) \<lparr>currentIndex = 3\<rparr>
       = (Inl (out_of_range ''No more elements''), \<lparr>currentIndex = 3\<rparr>)"
  using cursor_contract [of "add_all CustomCollection_new [10, 20, 30 :: cint]" "\<lparr>currentIndex = 1\<rparr>"]
    cursor_contract [of "add_all CustomCollection_new [10, 20, 30 :: cint]" "\<lparr>currentIndex = 3\<rparr>"]
  by (simp add: hasNext_def size_c_def items_add_all CustomCollection_new_def word_sless_alt)

subsection \<open>Several cursors over one collection\<close>

text \<open>
  Cursors are objects of their own: each \<^verbatim>\<open>createIterator()\<close> allocates a new
  \<^verbatim>\<open>ForwardIterator\<close> that refers to the one collection.  The store holds the collection
  and the cursors created so far; a cursor is named by its position in the store.
\<close>

record 'a heap =
  collection :: "'a CustomCollection"
  cursors :: "ForwardIterator list"

text \<open>
  The calls a client can make, and what it sees of each: the new cursor, the value
  returned, or the exception thrown.  A client that catches the exception goes on with
  the next call.  \<open>No_such_cursor\<close> answers a call on a name that no
  \<^verbatim>\<open>createIterator()\<close> has returned; nothing happens then.
\<close>

datatype call = CreateIterator | HasNext nat | Next nat

datatype 'a outcome = Created nat | Returned_bool bool | Returned 'a | Thrown exn | No_such_cursor

fun exec :: "'a heap \<Rightarrow> call \<Rightarrow> 'a outcome \<times> 'a heap" where
  "exec h CreateIterator =
     (Created (length (cursors h)),
      h\<lparr>cursors := cursors h @ [createIterator (collection h)]\<rparr>)"
| "exec h (HasNext k) =
     (if k < length (cursors h)
      then (Returned_bool (hasNext (collection h) (cursors h ! k)), h)
      else (No_such_cursor, h))"
| "exec h (Next k) =
     (if k < length (cursors h)
      then (case next_it (collection h) (cursors h ! k) of
              (Inl e, it') \<Rightarrow> (Thrown e, h\<lparr>cursors := (cursors h)[k := it']\<rparr>)
            | (Inr x, it') \<Rightarrow> (Returned x, h\<lparr>cursors := (cursors h)[k := it']\<rparr>))
      else (No_such_cursor, h))"

fun run :: "'a heap \<Rightarrow> call list \<Rightarrow> 'a outcome list \<times> 'a heap" where
  "run h [] = ([], h)"
| "run h (c # cs) =
     (case exec h c of (r, h') \<Rightarrow> (case run h' cs of (rs, h'') \<Rightarrow> (r # rs, h'')))"

text \<open>What the client of cursor \<open>j\<close> sees in a run: the outcomes of its own calls.\<close>

fun on_cursor :: "nat \<Rightarrow> call \<Rightarrow> bool" where
  "on_cursor j CreateIterator = False"
| "on_cursor j (HasNext k) = (k = j)"
| "on_cursor j (Next k) = (k = j)"

definition observed :: "nat \<Rightarrow> 'a heap \<Rightarrow> call list \<Rightarrow> 'a outcome list" where
  "observed j h cs = map snd (filter (\<lambda>(c, r). on_cursor j c) (zip cs (fst (run h cs))))"

definition same_view :: "nat \<Rightarrow> 'a heap \<Rightarrow> 'a heap \<Rightarrow> bool" where
  "same_view j h h' \<longleftrightarrow>
     collection h = collection h' \<and> j < length (cursors h) \<and> j < length (cursors h')
     \<and> cursors h ! j = cursors h' ! j"

lemma exec_collection: "collection (snd (exec h c)) = collection h"
  by (cases c) (auto split: prod.splits sum.splits)

lemma exec_other:
  "\<not> on_cursor j c \<Longrightarrow> same_view j h h' \<Longrightarrow> same_view j (snd (exec h c)) h'"
  by (cases c) (auto simp: same_view_def nth_append split: prod.splits sum.splits)

lemma exec_same_result:
  "on_cursor j c \<Longrightarrow> same_view j h h' \<Longrightarrow> fst (exec h c) = fst (exec h' c)"
  by (cases c) (auto simp: same_view_def split: prod.splits sum.splits)

lemma exec_same_view:
  "on_cursor j c \<Longrightarrow> same_view j h h' \<Longrightarrow> same_view j (snd (exec h c)) (snd (exec h' c))"
  by (cases c) (auto simp: same_view_def split: prod.splits sum.splits)

lemma observed_Cons:
  "observed j h (c # cs) =
     (if on_cursor j c then [fst (exec h c)] else []) @ observed j (snd (exec h c)) cs"
  by (auto simp: observed_def split: prod.splits)

lemma fst_run_Cons: "fst (run h (c # cs)) = fst (exec h c) # fst (run (snd (exec h c)) cs)"
  by (auto split: prod.splits)

lemma snd_run_Cons: "snd (run h (c # cs)) = snd (run (snd (exec h c)) cs)"
  by (auto split: prod.splits)

lemma observed_same_view:
  "same_view j h h' \<Longrightarrow> observed j h cs = fst (run h' (filter (on_cursor j) cs))"
proof (induction cs arbitrary: h h')
  case Nil
  show ?case by (simp add: observed_def)
next
  case (Cons c cs)
  show ?case
  proof (cases "on_cursor j c")
    case True
    from Cons.IH [OF exec_same_view [OF True Cons.prems]] exec_same_result [OF True Cons.prems]
    show ?thesis using True by (simp add: observed_Cons fst_run_Cons del: run.simps)
  next
    case False
    from Cons.IH [OF exec_other [OF False Cons.prems]]
    show ?thesis using False by (simp add: observed_Cons del: run.simps)
  qed
qed

lemma final_same_view:
  "same_view j h h' \<Longrightarrow>
   same_view j (snd (run h cs)) (snd (run h' (filter (on_cursor j) cs)))"
proof (induction cs arbitrary: h h')
  case Nil
  then show ?case by simp
next
  case (Cons c cs)
  show ?case
  proof (cases "on_cursor j c")
    case True
    from Cons.IH [OF exec_same_view [OF True Cons.prems]]
    show ?thesis using True by (simp add: snd_run_Cons del: run.simps)
  next
    case False
    from Cons.IH [OF exec_other [OF False Cons.prems]]
    show ?thesis using False by (simp add: snd_run_Cons del: run.simps)
  qed
qed

lemma same_view_refl: "j < length (cursors h) \<Longrightarrow> same_view j h h"
  by (simp add: same_view_def)

text \<open>
  C8: cursors over the same collection do not interfere.  For every store, every
  cursor \<open>j\<close> in it and every other cursor name \<open>k\<close>: \<^verbatim>\<open>hasNext()\<close> and \<^verbatim>\<open>next()\<close> on \<open>k\<close>
  leave the position of \<open>j\<close> and the collection as they are; and in every sequence of
  calls, on whichever cursors and with new cursors created in between, the outcomes of
  the calls on \<open>j\<close> and its final position are those of running the calls on \<open>j\<close>
  alone.
\<close>

theorem cursors_do_not_interfere:
  assumes "j < length (cursors h)" and "k \<noteq> j"
  shows "cursors (snd (exec h (HasNext k))) ! j = cursors h ! j
       \<and> cursors (snd (exec h (Next k))) ! j = cursors h ! j
       \<and> collection (snd (exec h (Next k))) = collection h
       \<and> observed j h cs = fst (run h (filter (on_cursor j) cs))
       \<and> cursors (snd (run h cs)) ! j = cursors (snd (run h (filter (on_cursor j) cs))) ! j"
proof (intro conjI)
  show "cursors (snd (exec h (HasNext k))) ! j = cursors h ! j" by simp
  show "cursors (snd (exec h (Next k))) ! j = cursors h ! j"
    using assms(2) by (auto split: prod.splits sum.splits)
  show "collection (snd (exec h (Next k))) = collection h" by (rule exec_collection)
  show "observed j h cs = fst (run h (filter (on_cursor j) cs))"
    using assms(1) by (intro observed_same_view same_view_refl)
  show "cursors (snd (run h cs)) ! j = cursors (snd (run h (filter (on_cursor j) cs))) ! j"
    using final_same_view [OF same_view_refl [OF assms(1)], of cs] by (simp add: same_view_def)
qed


theorem cursors_do_not_interfere_witness:
  "(1::nat) < length (cursors \<lparr>collection = add_all CustomCollection_new [10, 20, 30 :: cint],
        cursors = [\<lparr>currentIndex = 0\<rparr>, \<lparr>currentIndex = 0\<rparr>]\<rparr>)
   \<and> (0::nat) \<noteq> 1
   \<and> observed 1 \<lparr>collection = add_all CustomCollection_new [10, 20, 30 :: cint],
        cursors = [\<lparr>currentIndex = 0\<rparr>, \<lparr>currentIndex = 0\<rparr>]\<rparr>
        [Next 0, Next 1, Next 0, HasNext 1, Next 0, Next 0, Next 1]
      = fst (run \<lparr>collection = add_all CustomCollection_new [10, 20, 30 :: cint],
        cursors = [\<lparr>currentIndex = 0\<rparr>, \<lparr>currentIndex = 0\<rparr>]\<rparr> [Next 1, HasNext 1, Next 1])
   \<and> fst (run \<lparr>collection = add_all CustomCollection_new [10, 20, 30 :: cint],
        cursors = [\<lparr>currentIndex = 0\<rparr>, \<lparr>currentIndex = 0\<rparr>]\<rparr> [Next 1, HasNext 1, Next 1])
      = [Returned 10, Returned_bool True, Returned 20]"
  using cursors_do_not_interfere [of 1
      "\<lparr>collection = add_all CustomCollection_new [10, 20, 30 :: cint],
        cursors = [\<lparr>currentIndex = 0\<rparr>, \<lparr>currentIndex = 0\<rparr>]\<rparr>" 0
      "[Next 0, Next 1, Next 0, HasNext 1, Next 0, Next 0, Next 1]"]
  by (simp add: next_it_def get_def hasNext_def size_c_def items_add_all CustomCollection_new_def
      word_sless_alt)

subsection \<open>The position of a cursor\<close>

definition cursor_inv :: "'a CustomCollection \<Rightarrow> ForwardIterator \<Rightarrow> bool" where
  "cursor_inv c it \<longleftrightarrow>
     0 \<le> sint (currentIndex it) \<and> sint (currentIndex it) \<le> int (length (items c))
     \<and> (0 \<le> sint (size_c c) \<longrightarrow> sint (currentIndex it) \<le> sint (size_c c))"

lemma cursor_inv_createIterator: "cursor_inv c (createIterator c)"
  by (simp add: cursor_inv_def createIterator_def)

lemma next_it_fails: "\<not> hasNext c it \<Longrightarrow> snd (next_it c it) = it"
  by (simp add: next_it_def)

lemma cursor_inv_next_it:
  assumes "cursor_inv c it"
  shows "cursor_inv c (snd (next_it c it))"
proof (cases "hasNext c it")
  case False
  with assms show ?thesis by (simp add: next_it_fails)
next
  case True
  from assms have nn: "0 \<le> sint (currentIndex it)" by (simp add: cursor_inv_def)
  have lt: "sint (currentIndex it) < sint (size_c c)"
    using True by (simp add: hasNext_def word_sless_alt)
  have "nat (sint (currentIndex it)) < length (items c)"
    using True nn by (rule hasNext_in_range)
  with nn lt hasNext_sint_succ [OF True] next_it_hasNext [OF True nn]
  show ?thesis by (simp add: cursor_inv_def)
qed

lemma exec_inv:
  assumes "\<forall>it \<in> set (cursors h). cursor_inv (collection h) it"
  shows "\<forall>it \<in> set (cursors (snd (exec h c))). cursor_inv (collection (snd (exec h c))) it"
proof (cases c)
  case CreateIterator
  with assms show ?thesis by (simp add: cursor_inv_createIterator)
next
  case (HasNext k)
  with assms show ?thesis by simp
next
  case (Next k)
  show ?thesis
  proof (cases "k < length (cursors h)")
    case False
    with Next assms show ?thesis by simp
  next
    case True
    with assms have "cursor_inv (collection h) (cursors h ! k)" by simp
    then have n: "cursor_inv (collection h) (snd (next_it (collection h) (cursors h ! k)))"
      by (rule cursor_inv_next_it)
    have "set ((cursors h)[k := snd (next_it (collection h) (cursors h ! k))])
          \<subseteq> insert (snd (next_it (collection h) (cursors h ! k))) (set (cursors h))"
      by (rule set_update_subset_insert)
    with n assms Next True show ?thesis
      by (auto split: prod.splits sum.splits)
  qed
qed

lemma run_inv:
  "\<forall>it \<in> set (cursors h). cursor_inv (collection h) it \<Longrightarrow>
   \<forall>it \<in> set (cursors (snd (run h cs))). cursor_inv (collection (snd (run h cs))) it"
proof (induction cs arbitrary: h)
  case Nil
  then show ?case by simp
next
  case (Cons c cs)
  from Cons.IH [OF exec_inv [OF Cons.prems]]
  show ?case by (simp add: snd_run_Cons del: run.simps)
qed

lemma run_collection: "collection (snd (run h cs)) = collection h"
proof (induction cs arbitrary: h)
  case Nil
  show ?case by simp
next
  case (Cons c cs)
  then show ?case by (simp add: snd_run_Cons exec_collection del: run.simps)
qed

text \<open>
  C9: a new cursor is at position \<open>0\<close>; after every sequence of \<^verbatim>\<open>createIterator()\<close>,
  \<^verbatim>\<open>hasNext()\<close> and \<^verbatim>\<open>next()\<close> calls on a collection that is not changed, the position
  of every cursor is at least \<open>0\<close> and at most the number of elements of the
  collection (and at most the \<^verbatim>\<open>int\<close> that \<^verbatim>\<open>size()\<close> returns, when that is not negative);
  a \<^verbatim>\<open>next()\<close> that fails leaves the cursor unchanged.
\<close>

theorem cursor_position_bounded:
  "currentIndex (createIterator c) = 0
   \<and> (\<forall>it \<in> set (cursors (snd (run \<lparr>collection = c, cursors = []\<rparr> cs))).
        0 \<le> sint (currentIndex it) \<and> sint (currentIndex it) \<le> int (length (items c))
        \<and> (0 \<le> sint (size_c c) \<longrightarrow> sint (currentIndex it) \<le> sint (size_c c)))
   \<and> (\<not> hasNext c it \<longrightarrow> snd (next_it c it) = it)"
proof -
  let ?h = "\<lparr>collection = c, cursors = []\<rparr>"
  have "\<forall>it \<in> set (cursors ?h). cursor_inv (collection ?h) it" by simp
  from run_inv [OF this, of cs] run_collection [of ?h cs]
  show ?thesis by (simp add: cursor_inv_def createIterator_def next_it_fails)
qed

theorem cursor_position_bounded_witness:
  "cursors (snd (run \<lparr>collection = add_all CustomCollection_new [10, 20 :: cint], cursors = []\<rparr>
       [CreateIterator, Next 0, CreateIterator, Next 0, Next 0, HasNext 0, Next 0]))
     = [\<lparr>currentIndex = 2\<rparr>, \<lparr>currentIndex = 0\<rparr>]
   \<and> \<lparr>currentIndex = 2\<rparr> \<in> set (cursors (snd (run \<lparr>collection = add_all CustomCollection_new [10, 20 :: cint], cursors = []\<rparr>
       [CreateIterator, Next 0, CreateIterator, Next 0, Next 0, HasNext 0, Next 0])))
   \<and> sint (currentIndex \<lparr>currentIndex = 2\<rparr>)
       \<le> int (length (items (add_all CustomCollection_new [10, 20 :: cint])))
   \<and> 0 \<le> sint (size_c (add_all CustomCollection_new [10, 20 :: cint]))
   \<and> \<not> hasNext (add_all CustomCollection_new [10, 20 :: cint]) \<lparr>currentIndex = 2\<rparr>
   \<and> snd (next_it (add_all CustomCollection_new [10, 20 :: cint]) \<lparr>currentIndex = 2\<rparr>)
       = \<lparr>currentIndex = 2\<rparr>"
  using cursor_position_bounded [of "add_all CustomCollection_new [10, 20 :: cint]"
      "[CreateIterator, Next 0, CreateIterator, Next 0, Next 0, HasNext 0, Next 0]"
      "\<lparr>currentIndex = 2\<rparr>"]
  by (simp add: next_it_def get_def hasNext_def size_c_def items_add_all CustomCollection_new_def
      createIterator_def word_sless_alt)


section \<open>Observer demo: \<^verbatim>\<open>src/observer/observer.cpp\<close>\<close>

text \<open>
  An \<^verbatim>\<open>Observer*\<close> is the identity of an observer object.  The subject keeps such
  pointers, not the objects; the objects live in a store of their own (\<open>objects\<close> below).
  Neither constructor initialises its \<^verbatim>\<open>state\<close> field, so the theorems hold for any value
  found there.
\<close>

type_synonym observer_ptr = nat

record ConcreteSubject =
  state :: cint
  observers :: "observer_ptr list"

record ConcreteObserver =
  observer_state :: cint

text \<open>
  The argument of \<^verbatim>\<open>update(Subject* subject)\<close>: a null pointer, a \<^verbatim>\<open>ConcreteSubject\<close>, or
  an object of another class derived from \<^verbatim>\<open>Subject\<close>.
\<close>

datatype Subject_ptr = nullptr | ConcreteSubject_at ConcreteSubject | Other_Subject

definition attach :: "ConcreteSubject \<Rightarrow> observer_ptr \<Rightarrow> ConcreteSubject" where
  "attach s observer = s\<lparr>observers := observers s @ [observer]\<rparr>"

text \<open>
  \<^verbatim>\<open>std::remove_if(first, last, pred)\<close>, the compacting loop of the standard library:
  each element that \<open>pred\<close> rejects is moved down to the next free position \<open>result\<close>.
  It returns the vector as it is left and the new logical end; the elements from there
  on are leftovers.  \<^verbatim>\<open>erase(b, e)\<close> removes the positions from \<open>b\<close> up to \<open>e\<close>.
\<close>

function remove_if_loop :: "('a \<Rightarrow> bool) \<Rightarrow> 'a list \<Rightarrow> nat \<Rightarrow> nat \<Rightarrow> 'a list \<times> nat" where
  "remove_if_loop pred v result i =
     (if i < length v then
        (if \<not> pred (v ! i) then remove_if_loop pred (v[result := v ! i]) (Suc result) (Suc i)
         else remove_if_loop pred v result (Suc i))
      else (v, result))"
  by pat_completeness auto
termination
  by (relation "measure (\<lambda>(pred, v, result, i). length v - i)") auto

declare remove_if_loop.simps [simp del]

definition remove_if :: "('a \<Rightarrow> bool) \<Rightarrow> 'a list \<Rightarrow> 'a list \<times> nat" where
  "remove_if pred v = remove_if_loop pred v 0 0"

definition erase :: "'a list \<Rightarrow> nat \<Rightarrow> nat \<Rightarrow> 'a list" where
  "erase v b e = take b v @ drop e v"

text \<open>
  \<^verbatim>\<open>observers.erase(std::remove_if(observers.begin(), observers.end(),
      [observer](Observer* ptr) { return ptr == observer; }), observers.end());\<close>
\<close>

definition detach :: "ConcreteSubject \<Rightarrow> observer_ptr \<Rightarrow> ConcreteSubject" where
  "detach s observer =
     (case remove_if (\<lambda>ptr. ptr = observer) (observers s) of
        (v, new_end) \<Rightarrow> s\<lparr>observers := erase v new_end (length v)\<rparr>)"

definition setState :: "ConcreteSubject \<Rightarrow> cint \<Rightarrow> ConcreteSubject" where
  "setState s st = s\<lparr>state := st\<rparr>"

definition getState :: "ConcreteSubject \<Rightarrow> cint" where
  "getState s = state s"

text \<open>\<^verbatim>\<open>std::cout << int\<close>: the decimal digits, after a minus sign for a negative value.\<close>

definition digit :: "nat \<Rightarrow> char" where
  "digit d = ''0123456789'' ! d"

fun digits :: "nat \<Rightarrow> string" where
  "digits n = (if n < 10 then [digit n] else digits (n div 10) @ [digit (n mod 10)])"

declare digits.simps [simp del]

definition show_int :: "int \<Rightarrow> string" where
  "show_int i = (if i < 0 then CHR ''-'' # digits (nat (- i)) else digits (nat i))"

definition dynamic_cast_ConcreteSubject :: "Subject_ptr \<Rightarrow> ConcreteSubject option" where
  "dynamic_cast_ConcreteSubject subject =
     (case subject of ConcreteSubject_at s \<Rightarrow> Some s | _ \<Rightarrow> None)"

text \<open>
  \<^verbatim>\<open>update\<close> returns the observer as it is left and the lines it has printed:
  \<^verbatim>\<open>if (auto* concreteSubject = dynamic_cast<ConcreteSubject*>(subject)) {
      this->state = concreteSubject->getState();
      std::cout << "ConcreteObserver updated: " << this->state << std::endl; }\<close>
\<close>

definition updated_line :: "cint \<Rightarrow> string" where
  "updated_line st = ''ConcreteObserver updated: '' @ show_int (sint st)"

definition update :: "ConcreteObserver \<Rightarrow> Subject_ptr \<Rightarrow> ConcreteObserver \<times> string list" where
  "update this subject =
     (case dynamic_cast_ConcreteSubject subject of
        Some concreteSubject \<Rightarrow>
          (this\<lparr>observer_state := getState concreteSubject\<rparr>,
           [updated_line (getState concreteSubject)])
      | None \<Rightarrow> (this, []))"

text \<open>
  What \<^verbatim>\<open>notify\<close> works on besides the subject: the observer objects, the lines on
  \<^verbatim>\<open>std::cout\<close>, and a log of the \<^verbatim>\<open>update\<close> calls made, by receiver.  A pointer in the
  list that refers to no live observer makes \<^verbatim>\<open>observer->update(this)\<close> undefined: the
  model returns \<open>None\<close>.
\<close>

record env =
  objects :: "observer_ptr \<Rightarrow> ConcreteObserver option"
  out :: "string list"
  update_calls :: "observer_ptr list"

fun notify_loop :: "ConcreteSubject \<Rightarrow> observer_ptr list \<Rightarrow> env \<Rightarrow> env option" where
  "notify_loop this [] e = Some e"
| "notify_loop this (observer # rest) e =
     (case objects e observer of
        None \<Rightarrow> None
      | Some obj \<Rightarrow>
          (case update obj (ConcreteSubject_at this) of
             (obj', lines) \<Rightarrow>
               notify_loop this rest
                 (e\<lparr>objects := (objects e)(observer \<mapsto> obj'),
                    out := out e @ lines,
                    update_calls := update_calls e @ [observer]\<rparr>)))"

definition notify :: "ConcreteSubject \<Rightarrow> env \<Rightarrow> env option" where
  "notify this e = notify_loop this (observers this) e"

subsection \<open>The erase-remove idiom keeps what the predicate rejects\<close>

lemma remove_if_loop_filter:
  "result \<le> i \<Longrightarrow> i \<le> length v \<Longrightarrow>
   (case remove_if_loop pred v result i of (v', new_end) \<Rightarrow>
      take new_end v' = take result v @ filter (\<lambda>x. \<not> pred x) (drop i v)
      \<and> length v' = length v \<and> new_end \<le> length v)"
proof (induction pred v result i rule: remove_if_loop.induct)
  case (1 pred v result i)
  show ?case
  proof (cases "i < length v")
    case False
    with 1(3,4) show ?thesis by (simp add: remove_if_loop.simps [of pred v])
  next
    case True
    note lt = this
    have d: "drop i v = v ! i # drop (Suc i) v" using lt by (simp add: Cons_nth_drop_Suc)
    show ?thesis
    proof (cases "pred (v ! i)")
      case True
      with 1(2) [OF lt _] 1(3,4) lt d show ?thesis
        by (simp add: remove_if_loop.simps [of pred v result i])
    next
      case False
      have r: "result < length v" using 1(3) lt by simp
      have t: "take (Suc result) (v[result := v ! i]) = take result v @ [v ! i]"
        using r by (simp add: take_Suc_conv_app_nth)
      have dd: "drop (Suc i) (v[result := v ! i]) = drop (Suc i) v"
        using 1(3) by simp
      from 1(1) [OF lt False] 1(3,4) lt
      have "case remove_if_loop pred (v[result := v ! i]) (Suc result) (Suc i) of
          (v', new_end) \<Rightarrow>
            take new_end v' = take (Suc result) (v[result := v ! i])
               @ filter (\<lambda>x. \<not> pred x) (drop (Suc i) (v[result := v ! i]))
            \<and> length v' = length (v[result := v ! i]) \<and> new_end \<le> length (v[result := v ! i])"
        by simp
      with False lt d t dd show ?thesis
        by (simp add: remove_if_loop.simps [of pred v result i] split: prod.splits)
    qed
  qed
qed

lemma observers_detach:
  "observers (detach s observer) = filter (\<lambda>ptr. ptr \<noteq> observer) (observers s)"
  using remove_if_loop_filter [of 0 0 "observers s" "\<lambda>ptr. ptr = observer"]
  by (auto simp: detach_def remove_if_def erase_def split: prod.splits)

lemma count_list_filter_other:
  "x \<noteq> y \<Longrightarrow> count_list (filter (\<lambda>z. z \<noteq> y) xs) x = count_list xs x"
  by (induction xs) auto

subsection \<open>A broadcast over live observers\<close>

lemma update_ConcreteSubject:
  "update obj (ConcreteSubject_at s) =
     (obj\<lparr>observer_state := state s\<rparr>, [updated_line (state s)])"
  by (simp add: update_def dynamic_cast_ConcreteSubject_def getState_def)

lemma notify_loop_live:
  "\<forall>p \<in> set ps. objects e p \<noteq> None \<Longrightarrow>
   notify_loop s ps e =
     Some (e\<lparr>objects := (\<lambda>p. if p \<in> set ps
                              then map_option (\<lambda>obj. obj\<lparr>observer_state := state s\<rparr>) (objects e p)
                              else objects e p),
             out := out e @ replicate (length ps) (updated_line (state s)),
             update_calls := update_calls e @ ps\<rparr>)"
proof (induction ps arbitrary: e)
  case Nil
  show ?case by simp
next
  case (Cons p ps)
  from Cons.prems obtain obj where obj: "objects e p = Some obj" by auto
  let ?e = "e\<lparr>objects := (objects e)(p \<mapsto> obj\<lparr>observer_state := state s\<rparr>),
              out := out e @ [updated_line (state s)],
              update_calls := update_calls e @ [p]\<rparr>"
  have live: "\<forall>q \<in> set ps. objects ?e q \<noteq> None" using Cons.prems by simp
  have step: "notify_loop s (p # ps) e = notify_loop s ps ?e"
    using obj by (simp add: update_ConcreteSubject)
  show ?case
    unfolding step Cons.IH [OF live] using obj
    by (cases e) (auto simp: fun_eq_iff)
qed

lemma notify_live:
  "\<forall>p \<in> set (observers s). objects e p \<noteq> None \<Longrightarrow>
   notify s e =
     Some (e\<lparr>objects := (\<lambda>p. if p \<in> set (observers s)
                              then map_option (\<lambda>obj. obj\<lparr>observer_state := state s\<rparr>) (objects e p)
                              else objects e p),
             out := out e @ replicate (length (observers s)) (updated_line (state s)),
             update_calls := update_calls e @ observers s\<rparr>)"
  unfolding notify_def by (rule notify_loop_live)

text \<open>
  C4: for every live observer \<open>A\<close> and every subject whose attached observers are live:
  \<^verbatim>\<open>attach(A); setState(1); notify();\<close> returns and leaves \<open>A\<close>'s state field at \<open>1\<close>; then
  \<^verbatim>\<open>detach(A); setState(2); notify();\<close> returns and leaves \<open>A\<close> as it was, its state field
  still \<open>1\<close>.
\<close>

theorem attach_notify_detach_notify:
  assumes "objects e A = Some a" and "\<forall>p \<in> set (observers s). objects e p \<noteq> None"
  shows "\<exists>e1 e2 a1.
           notify (setState (attach s A) 1) e = Some e1
         \<and> objects e1 A = Some a1 \<and> observer_state a1 = 1
         \<and> notify (setState (detach (setState (attach s A) 1) A) 2) e1 = Some e2
         \<and> objects e2 A = Some a1"
proof -
  let ?s1 = "setState (attach s A) 1"
  let ?s2 = "setState (detach ?s1 A) 2"
  have o1: "observers ?s1 = observers s @ [A]" and st1: "state ?s1 = 1"
    by (simp_all add: setState_def attach_def)
  have live1: "\<forall>p \<in> set (observers ?s1). objects e p \<noteq> None"
    using assms by (simp add: o1)
  from notify_live [OF live1] obtain e1 where
    e1: "notify ?s1 e = Some e1" and
    ob1: "objects e1 = (\<lambda>p. if p \<in> set (observers ?s1)
            then map_option (\<lambda>obj. obj\<lparr>observer_state := state ?s1\<rparr>) (objects e p)
            else objects e p)"
    by simp
  have a1: "objects e1 A = Some (a\<lparr>observer_state := 1\<rparr>)"
    using assms(1) by (simp add: ob1 o1 st1)
  have o2: "observers ?s2 = filter (\<lambda>ptr. ptr \<noteq> A) (observers s)"
    by (simp add: setState_def observers_detach o1 attach_def)
  have live2: "\<forall>p \<in> set (observers ?s2). objects e1 p \<noteq> None"
    using assms(2) by (auto simp: o2 ob1 o1)
  from notify_live [OF live2] obtain e2 where
    e2: "notify ?s2 e1 = Some e2" and
    ob2: "objects e2 = (\<lambda>p. if p \<in> set (observers ?s2)
            then map_option (\<lambda>obj. obj\<lparr>observer_state := state ?s2\<rparr>) (objects e1 p)
            else objects e1 p)"
    by simp
  have a2: "objects e2 A = Some (a\<lparr>observer_state := 1\<rparr>)"
    using a1 by (simp add: ob2 o2)
  have "observer_state (a\<lparr>observer_state := 1\<rparr>) = 1" by simp
  with e1 a1 e2 a2 show ?thesis by blast
qed

theorem attach_notify_detach_notify_witness:
  "objects \<lparr>objects = [0 \<mapsto> \<lparr>observer_state = 7\<rparr>], out = [], update_calls = []\<rparr> 0
     = Some \<lparr>observer_state = 7\<rparr>
   \<and> (\<exists>e1 e2 a1.
         notify (setState (attach \<lparr>state = 5, observers = []\<rparr> 0) 1)
           \<lparr>objects = [0 \<mapsto> \<lparr>observer_state = 7\<rparr>], out = [], update_calls = []\<rparr> = Some e1
       \<and> objects e1 0 = Some a1 \<and> observer_state a1 = 1
       \<and> notify (setState (detach (setState (attach \<lparr>state = 5, observers = []\<rparr> 0) 1) 0) 2) e1
           = Some e2
       \<and> objects e2 0 = Some a1)
   \<and> map_option (\<lambda>e1. (objects e1 0, out e1))
         (notify (setState (attach \<lparr>state = 5, observers = []\<rparr> 0) 1)
           \<lparr>objects = [0 \<mapsto> \<lparr>observer_state = 7\<rparr>], out = [], update_calls = []\<rparr>)
       = Some (Some \<lparr>observer_state = 1\<rparr>, [''ConcreteObserver updated: 1''])
   \<and> map_option (\<lambda>e2. (objects e2 0, out e2))
         (Option.bind
           (notify (setState (attach \<lparr>state = 5, observers = []\<rparr> 0) 1)
             \<lparr>objects = [0 \<mapsto> \<lparr>observer_state = 7\<rparr>], out = [], update_calls = []\<rparr>)
           (notify (setState (detach (setState (attach \<lparr>state = 5, observers = []\<rparr> 0) 1) 0) 2)))
       = Some (Some \<lparr>observer_state = 1\<rparr>, [''ConcreteObserver updated: 1''])"
proof -
  have ex: "\<exists>e1 e2 a1.
         notify (setState (attach \<lparr>state = 5, observers = []\<rparr> 0) 1)
           \<lparr>objects = [0 \<mapsto> \<lparr>observer_state = 7\<rparr>], out = [], update_calls = []\<rparr> = Some e1
       \<and> objects e1 0 = Some a1 \<and> observer_state a1 = 1
       \<and> notify (setState (detach (setState (attach \<lparr>state = 5, observers = []\<rparr> 0) 1) 0) 2) e1
           = Some e2
       \<and> objects e2 0 = Some a1"
    using attach_notify_detach_notify [of
        "\<lparr>objects = [0 \<mapsto> \<lparr>observer_state = 7\<rparr>], out = [], update_calls = []\<rparr>" 0
        "\<lparr>observer_state = 7\<rparr>" "\<lparr>state = 5, observers = []\<rparr>"]
    by simp
  show ?thesis
    by (intro conjI ex)
      (simp_all add: notify_def attach_def setState_def update_def dynamic_cast_ConcreteSubject_def
        getState_def updated_line_def show_int_def digits.simps digit_def
        detach_def remove_if_def remove_if_loop.simps erase_def)
qed

lemma observers_foldl_attach: "observers (foldl attach s ps) = observers s @ ps"
  by (induction ps arbitrary: s) (simp_all add: attach_def)

lemma state_foldl_attach: "state (foldl attach s ps) = state s"
  by (induction ps arbitrary: s) (simp_all add: attach_def)

text \<open>
  C5: for every live observer \<open>A\<close> that is not attached yet, after two \<^verbatim>\<open>attach(A)\<close> calls
  (other live observers may be attached in between) one \<^verbatim>\<open>notify()\<close> returns and calls
  \<open>A\<close>'s \<^verbatim>\<open>update\<close> exactly twice; every \<^verbatim>\<open>update\<close> call of the broadcast prints one line.
\<close>

theorem attach_twice_notifies_twice:
  assumes "objects e A = Some a" and "\<forall>p \<in> set (observers s @ others). objects e p \<noteq> None"
    and "A \<notin> set (observers s @ others)"
  shows "\<exists>e' made.
           notify (attach (foldl attach (attach s A) others) A) e = Some e'
         \<and> update_calls e' = update_calls e @ made \<and> count_list made A = 2
         \<and> out e' = out e @ replicate (length made) (updated_line (state s))"
proof -
  let ?s = "attach (foldl attach (attach s A) others) A"
  have o: "observers ?s = observers s @ [A] @ others @ [A]"
    by (simp add: attach_def observers_foldl_attach)
  have st: "state ?s = state s"
    by (simp add: attach_def state_foldl_attach)
  have "\<forall>p \<in> set (observers ?s). objects e p \<noteq> None"
    using assms(1,2) by (auto simp: o)
  note n = notify_live [OF this]
  have "count_list (observers s @ [A] @ others @ [A]) A = 2"
    using assms(3) by (simp add: count_list_0_iff)
  with n show ?thesis by (simp add: o st)
qed

theorem attach_twice_notifies_twice_witness:
  "objects \<lparr>objects = [0 \<mapsto> \<lparr>observer_state = 7\<rparr>, 1 \<mapsto> \<lparr>observer_state = 8\<rparr>],
            out = [], update_calls = []\<rparr> 0
     = Some \<lparr>observer_state = 7\<rparr>
   \<and> objects \<lparr>objects = [0 \<mapsto> \<lparr>observer_state = 7\<rparr>, 1 \<mapsto> \<lparr>observer_state = 8\<rparr>],
            out = [], update_calls = []\<rparr> 1
     = Some \<lparr>observer_state = 8\<rparr>
   \<and> 0 \<notin> set (observers \<lparr>state = 5, observers = []\<rparr> @ [1])
   \<and> (\<exists>e' made.
         notify (attach (foldl attach (attach \<lparr>state = 5, observers = []\<rparr> 0) [1]) 0)
           \<lparr>objects = [0 \<mapsto> \<lparr>observer_state = 7\<rparr>, 1 \<mapsto> \<lparr>observer_state = 8\<rparr>],
            out = [], update_calls = []\<rparr> = Some e'
       \<and> update_calls e' = [] @ made \<and> count_list made 0 = 2
       \<and> out e' = [] @ replicate (length made) (updated_line (state \<lparr>state = 5, observers = []\<rparr>)))
   \<and> map_option (\<lambda>e'. (out e', update_calls e'))
         (notify (attach (foldl attach (attach \<lparr>state = 5, observers = []\<rparr> 0) [1]) 0)
           \<lparr>objects = [0 \<mapsto> \<lparr>observer_state = 7\<rparr>, 1 \<mapsto> \<lparr>observer_state = 8\<rparr>],
            out = [], update_calls = []\<rparr>)
       = Some ([''ConcreteObserver updated: 5'', ''ConcreteObserver updated: 5'',
                ''ConcreteObserver updated: 5''], [0, 1, 0])"
proof -
  have ex: "\<exists>e' made.
         notify (attach (foldl attach (attach \<lparr>state = 5, observers = []\<rparr> 0) [1]) 0)
           \<lparr>objects = [0 \<mapsto> \<lparr>observer_state = 7\<rparr>, 1 \<mapsto> \<lparr>observer_state = 8\<rparr>],
            out = [], update_calls = []\<rparr> = Some e'
       \<and> update_calls e' = [] @ made \<and> count_list made 0 = 2
       \<and> out e' = [] @ replicate (length made) (updated_line (state \<lparr>state = 5, observers = []\<rparr>))"
    using attach_twice_notifies_twice [of
        "\<lparr>objects = [0 \<mapsto> \<lparr>observer_state = 7\<rparr>, 1 \<mapsto> \<lparr>observer_state = 8\<rparr>],
          out = [], update_calls = []\<rparr>" 0
        "\<lparr>observer_state = 7\<rparr>" "\<lparr>state = 5, observers = []\<rparr>" "[1]"]
    by simp
  show ?thesis
    by (intro conjI ex)
      (simp_all add: notify_def attach_def update_def dynamic_cast_ConcreteSubject_def
        getState_def updated_line_def show_int_def digits.simps digit_def)
qed

text \<open>
  C6: for every subject and every observer pointer \<open>S\<close>, \<^verbatim>\<open>detach(S)\<close> leaves exactly the
  entries of the list that differ from \<open>S\<close>, in their order: no entry equal to \<open>S\<close>
  remains, however often it was attached, every other pointer keeps its number of
  entries, and the subject is unchanged when \<open>S\<close> is not in the list.
\<close>

theorem detach_removes_all:
  "observers (detach s S) = filter (\<lambda>ptr. ptr \<noteq> S) (observers s)
   \<and> S \<notin> set (observers (detach s S))
   \<and> (\<forall>ptr. ptr \<noteq> S \<longrightarrow> count_list (observers (detach s S)) ptr = count_list (observers s) ptr)
   \<and> (S \<notin> set (observers s) \<longrightarrow> detach s S = s)
   \<and> state (detach s S) = state s"
proof (intro conjI allI impI)
  show f: "observers (detach s S) = filter (\<lambda>ptr. ptr \<noteq> S) (observers s)"
    by (rule observers_detach)
  show "S \<notin> set (observers (detach s S))" by (simp add: f)
  show "state (detach s S) = state s"
    by (simp add: detach_def split: prod.splits)
  have "detach s S = s\<lparr>observers := observers (detach s S)\<rparr>"
    by (simp add: detach_def split: prod.splits)
  moreover have "filter (\<lambda>ptr. ptr \<noteq> S) (observers s) = observers s"
    if "S \<notin> set (observers s)"
    using that by (auto simp: filter_id_conv)
  ultimately show "detach s S = s" if "S \<notin> set (observers s)"
    using that by (simp add: f)
  show "count_list (observers (detach s S)) ptr = count_list (observers s) ptr" if "ptr \<noteq> S" for ptr
    using that by (simp add: f count_list_filter_other)
qed

theorem detach_removes_all_witness:
  "observers (detach \<lparr>state = 5, observers = [1, 2, 1, 3, 1]\<rparr> 1) = [2, 3]
   \<and> (2::nat) \<noteq> 1
   \<and> count_list (observers (detach \<lparr>state = 5, observers = [1, 2, 1, 3, 1]\<rparr> 1)) 2
       = count_list (observers \<lparr>state = 5, observers = [1, 2, 1, 3, 1]\<rparr>) 2
   \<and> 4 \<notin> set (observers \<lparr>state = 5, observers = [1, 2, 1, 3, 1]\<rparr>)
   \<and> detach \<lparr>state = 5, observers = [1, 2, 1, 3, 1]\<rparr> 4
       = \<lparr>state = 5, observers = [1, 2, 1, 3, 1]\<rparr>"
  using detach_removes_all [of "\<lparr>state = 5, observers = [1, 2, 1, 3, 1]\<rparr>" 1]
    detach_removes_all [of "\<lparr>state = 5, observers = [1, 2, 1, 3, 1]\<rparr>" 4]
  by simp

text \<open>
  C10: when the \<^verbatim>\<open>dynamic_cast\<close> in \<^verbatim>\<open>update\<close> fails (the subject is null or not a
  \<^verbatim>\<open>ConcreteSubject\<close>), the observer is left unchanged and no line is printed; the state
  field changes only when the subject is a \<^verbatim>\<open>ConcreteSubject\<close>, and then it takes the
  subject's state and one line is printed.
\<close>

theorem observer_update_needs_ConcreteSubject:
  "(dynamic_cast_ConcreteSubject subject = None \<longrightarrow> update this subject = (this, []))
   \<and> (observer_state (fst (update this subject)) \<noteq> observer_state this
        \<longrightarrow> (\<exists>s. subject = ConcreteSubject_at s))
   \<and> update this (ConcreteSubject_at s) =
        (this\<lparr>observer_state := getState s\<rparr>, [updated_line (getState s)])"
  by (cases subject) (simp_all add: update_def dynamic_cast_ConcreteSubject_def)

theorem observer_update_needs_ConcreteSubject_witness:
  "dynamic_cast_ConcreteSubject nullptr = None
   \<and> update \<lparr>observer_state = 7\<rparr> nullptr = (\<lparr>observer_state = 7\<rparr>, [])
   \<and> dynamic_cast_ConcreteSubject Other_Subject = None
   \<and> update \<lparr>observer_state = 7\<rparr> Other_Subject = (\<lparr>observer_state = 7\<rparr>, [])
   \<and> observer_state (fst (update \<lparr>observer_state = 7\<rparr>
          (ConcreteSubject_at \<lparr>state = 1, observers = [0]\<rparr>)))
       \<noteq> observer_state \<lparr>observer_state = 7\<rparr>
   \<and> (\<exists>s. ConcreteSubject_at \<lparr>state = 1, observers = [0]\<rparr> = ConcreteSubject_at s)"
  using observer_update_needs_ConcreteSubject [of nullptr "\<lparr>observer_state = 7\<rparr>"]
    observer_update_needs_ConcreteSubject [of Other_Subject "\<lparr>observer_state = 7\<rparr>"]
    observer_update_needs_ConcreteSubject [of "ConcreteSubject_at \<lparr>state = 1, observers = [0]\<rparr>"
      "\<lparr>observer_state = 7\<rparr>"]
  by (simp add: dynamic_cast_ConcreteSubject_def update_def getState_def)

section \<open>Visitor demo: \<^verbatim>\<open>src/visitor/visitor.cpp\<close>\<close>

text \<open>
  \<^verbatim>\<open>std::cout\<close> is the list of the lines printed so far.  An \<^verbatim>\<open>Animal\<close> is a \<^verbatim>\<open>Lion\<close> or a
  \<^verbatim>\<open>Tiger\<close>; an \<^verbatim>\<open>AnimalVisitor\<close> is the pair of its two \<^verbatim>\<open>visit\<close> overloads.  The virtual
  \<^verbatim>\<open>accept\<close> of each class calls the overload for its own class.
\<close>

datatype Lion = Lion string

datatype Tiger = Tiger string

fun Lion_getName :: "Lion \<Rightarrow> string" where
  "Lion_getName (Lion name) = name"

fun Tiger_getName :: "Tiger \<Rightarrow> string" where
  "Tiger_getName (Tiger name) = name"

datatype Animal = A_Lion Lion | A_Tiger Tiger

record AnimalVisitor =
  visit_Lion :: "Lion \<Rightarrow> string list \<Rightarrow> string list"
  visit_Tiger :: "Tiger \<Rightarrow> string list \<Rightarrow> string list"

fun accept :: "Animal \<Rightarrow> AnimalVisitor \<Rightarrow> string list \<Rightarrow> string list" where
  "accept (A_Lion this) visitor cout = visit_Lion visitor this cout"
| "accept (A_Tiger this) visitor cout = visit_Tiger visitor this cout"

definition FeedingVisitor :: AnimalVisitor where
  "FeedingVisitor =
     \<lparr>visit_Lion = (\<lambda>lion cout. cout @ [''Feeding to Lion: '' @ Lion_getName lion]),
      visit_Tiger = (\<lambda>tiger cout. cout @ [''Feeding to Tiger: '' @ Tiger_getName tiger])\<rparr>"

record Zoo =
  animals :: "Animal list"

definition Zoo_new :: Zoo where
  "Zoo_new = \<lparr>animals = []\<rparr>"

definition addAnimal :: "Zoo \<Rightarrow> Animal \<Rightarrow> Zoo" where
  "addAnimal z animal = z\<lparr>animals := animals z @ [animal]\<rparr>"

text \<open>
  \<^verbatim>\<open>Zoo::accept\<close>: the start marker, \<^verbatim>\<open>animal->accept(visitor)\<close> for each animal of the
  vector in order, the end marker.
\<close>

fun accept_each :: "Animal list \<Rightarrow> AnimalVisitor \<Rightarrow> string list \<Rightarrow> string list" where
  "accept_each [] visitor cout = cout"
| "accept_each (animal # rest) visitor cout = accept_each rest visitor (accept animal visitor cout)"

definition Zoo_accept :: "Zoo \<Rightarrow> AnimalVisitor \<Rightarrow> string list \<Rightarrow> string list" where
  "Zoo_accept z visitor cout =
     accept_each (animals z) visitor (cout @ [''---START---'']) @ [''----END----'']"

text \<open>The line that \<^verbatim>\<open>FeedingVisitor\<close> prints for an animal.\<close>

fun feeding_line :: "Animal \<Rightarrow> string" where
  "feeding_line (A_Lion lion) = ''Feeding to Lion: '' @ Lion_getName lion"
| "feeding_line (A_Tiger tiger) = ''Feeding to Tiger: '' @ Tiger_getName tiger"

lemma animals_add_all: "animals (foldl addAnimal z as) = animals z @ as"
  by (induction as arbitrary: z) (simp_all add: addAnimal_def)

lemma accept_FeedingVisitor: "accept animal FeedingVisitor cout = cout @ [feeding_line animal]"
  by (cases animal) (simp_all add: FeedingVisitor_def)

lemma accept_each_FeedingVisitor:
  "accept_each as FeedingVisitor cout = cout @ map feeding_line as"
  by (induction as arbitrary: cout) (simp_all add: accept_FeedingVisitor)

lemma accept_each_append:
  "accept_each (as @ bs) visitor cout = accept_each bs visitor (accept_each as visitor cout)"
  by (induction as arbitrary: cout) simp_all

text \<open>
  C7: for the zoo to which \<^verbatim>\<open>Lion("Simba")\<close> and then \<^verbatim>\<open>Tiger("Shere Khan")\<close> were added,
  \<^verbatim>\<open>accept\<close> with a \<^verbatim>\<open>FeedingVisitor\<close> prints the start marker, the Lion line for Simba,
  the Tiger line for Shere Khan and the end marker.  For every zoo, \<^verbatim>\<open>accept\<close> with a
  \<^verbatim>\<open>FeedingVisitor\<close> prints one line per animal between the markers, in the order the
  animals were added and by the animal's kind; and for every visitor, a lion is handed
  to \<^verbatim>\<open>visit(const Lion&)\<close> and a tiger to \<^verbatim>\<open>visit(const Tiger&)\<close>, after the animals
  added before it and before those added after it.
\<close>

theorem zoo_accept_feeds_in_order:
  "Zoo_accept (addAnimal (addAnimal Zoo_new (A_Lion (Lion ''Simba''))) (A_Tiger (Tiger ''Shere Khan'')))
     FeedingVisitor cout
   = cout @ [''---START---'', ''Feeding to Lion: Simba'', ''Feeding to Tiger: Shere Khan'',
             ''----END----'']
   \<and> Zoo_accept (foldl addAnimal Zoo_new as) FeedingVisitor cout
       = cout @ [''---START---''] @ map feeding_line as @ [''----END----'']
   \<and> Zoo_accept (foldl addAnimal Zoo_new (as @ [A_Lion lion] @ bs)) visitor cout
       = accept_each bs visitor
           (visit_Lion visitor lion (accept_each as visitor (cout @ [''---START---''])))
         @ [''----END----'']
   \<and> Zoo_accept (foldl addAnimal Zoo_new (as @ [A_Tiger tiger] @ bs)) visitor cout
       = accept_each bs visitor
           (visit_Tiger visitor tiger (accept_each as visitor (cout @ [''---START---''])))
         @ [''----END----'']"
proof (intro conjI)
  show "Zoo_accept
          (addAnimal (addAnimal Zoo_new (A_Lion (Lion ''Simba''))) (A_Tiger (Tiger ''Shere Khan'')))
          FeedingVisitor cout
        = cout @ [''---START---'', ''Feeding to Lion: Simba'', ''Feeding to Tiger: Shere Khan'',
                  ''----END----'']"
    by (simp add: Zoo_accept_def Zoo_new_def addAnimal_def accept_each_FeedingVisitor)
  show "Zoo_accept (foldl addAnimal Zoo_new as) FeedingVisitor cout
        = cout @ [''---START---''] @ map feeding_line as @ [''----END----'']"
    by (simp add: Zoo_accept_def animals_add_all Zoo_new_def accept_each_FeedingVisitor)
  show "Zoo_accept (foldl addAnimal Zoo_new (as @ [A_Lion lion] @ bs)) visitor cout
        = accept_each bs visitor
            (visit_Lion visitor lion (accept_each as visitor (cout @ [''---START---''])))
          @ [''----END----'']"
    by (simp add: Zoo_accept_def animals_add_all Zoo_new_def addAnimal_def accept_each_append)
  show "Zoo_accept (foldl addAnimal Zoo_new (as @ [A_Tiger tiger] @ bs)) visitor cout
        = accept_each bs visitor
            (visit_Tiger visitor tiger (accept_each as visitor (cout @ [''---START---''])))
          @ [''----END----'']"
    by (simp add: Zoo_accept_def animals_add_all Zoo_new_def addAnimal_def accept_each_append)
qed

end
